theory Spec2Isabelle
  imports Main "HOL-Library.Word" "HOL-Library.Multiset"
begin

unbundle bit_operations_syntax

section \<open>The in-memory filesystem of cmd/memfs/main.go\<close>

text \<open>
  The embedding follows cmd/memfs/main.go function by function. Conventions:
  \<^item> Go's heap is three typed stores (\<open>dirs\<close>, \<open>files\<close>, \<open>symlinks\<close>); a pointer
    \<open>*Dir\<close>, \<open>*File\<close> or \<open>*Symlink\<close> is an index into its store and \<open>&T{...}\<close> appends to
    it, so a new pointer is always fresh and objects are never moved. Garbage collection
    is not observable and is not modelled.
  \<^item> A value of the interface type \<open>Node\<close> is a tagged pointer, or nil.
  \<^item> Every method takes the state and returns either the way it failed to return
    (\<open>Inl Panic\<close> for a Go run-time panic, \<open>Inl LogFatal\<close> for \<open>log.Fatal\<close>, which exits
    the process) or its return values with the new state. The \<open>error\<close> a method
    returns is an \<open>errno option\<close>, \<open>None\<close> being nil.
  \<^item> \<open>time.Now()\<close> reads the next value of a clock that is part of the state.
  \<^item> \<open>int\<close> is 64 bits wide; allocation (\<open>make\<close>, \<open>append\<close>) always succeeds.
  \<^item> The mutex is not modelled: every method runs as one atomic step.
\<close>

subsection \<open>Values\<close>

type_synonym byte = "8 word"
type_synonym time = int
type_synonym FileMode = "32 word"
type_synonym SetattrValid = "32 word"

text \<open>\<open>os.ModeDir\<close> and \<open>os.ModeSymlink\<close> of Go's package os.\<close>

definition ModeDir :: FileMode where
  "ModeDir = push_bit 31 1"

definition ModeSymlink :: FileMode where
  "ModeSymlink = push_bit 27 1"

text \<open>The errors of package fuse that main.go returns.\<close>

datatype errno = ENOENT | EEXIST

datatype abort = Panic | LogFatal

text \<open>A value of the interface type \<open>Node\<close>.\<close>

datatype Node = NilNode | DirPtr nat | FilePtr nat | SymlinkPtr nat

subsection \<open>Byte slices\<close>

text \<open>
  A \<open>[]byte\<close> is a window on a backing array: \<open>elems\<close> are the bytes of the slice
  (its length is \<open>len\<close>), \<open>spare\<close> the bytes of the backing array that follow them up to
  the capacity. The nil slice has both empty.
\<close>

record slice =
  elems :: "byte list"
  spare :: "byte list"

definition nil_slice :: slice where
  "nil_slice = \<lparr>elems = [], spare = []\<rparr>"

definition len :: "slice \<Rightarrow> nat" where
  "len s = length (elems s)"

definition cap :: "slice \<Rightarrow> nat" where
  "cap s = length (elems s) + length (spare s)"

text \<open>\<open>s[low:]\<close>: panics unless \<open>0 \<le> low \<le> len(s)\<close>.\<close>

definition slice_low :: "slice \<Rightarrow> int \<Rightarrow> slice option" where
  "slice_low s low =
     (if 0 \<le> low \<and> low \<le> int (len s)
      then Some \<lparr>elems = drop (nat low) (elems s), spare = spare s\<rparr>
      else None)"

text \<open>\<open>s[:high]\<close>: panics unless \<open>0 \<le> high \<le> cap(s)\<close>; it may reach into the spare
  capacity.\<close>

definition slice_high :: "slice \<Rightarrow> int \<Rightarrow> slice option" where
  "slice_high s high =
     (if 0 \<le> high \<and> high \<le> int (cap s)
      then Some \<lparr>elems = take (nat high) (elems s @ spare s),
                 spare = drop (nat high) (elems s @ spare s)\<rparr>
      else None)"

text \<open>
  \<open>append(s, xs...)\<close>: written in place when the capacity suffices; otherwise the
  bytes move to a new zeroed array of the needed size plus whatever the run-time's
  growth rule adds (\<open>slack\<close>, given the old capacity and the needed length).
\<close>

definition append_slice :: "(nat \<Rightarrow> nat \<Rightarrow> nat) \<Rightarrow> slice \<Rightarrow> byte list \<Rightarrow> slice" where
  "append_slice slack s xs =
     (if len s + length xs \<le> cap s
      then \<lparr>elems = elems s @ xs, spare = drop (length xs) (spare s)\<rparr>
      else \<lparr>elems = elems s @ xs,
            spare = replicate (slack (cap s) (len s + length xs)) 0\<rparr>)"

text \<open>\<open>make([]byte, n)\<close>.\<close>

definition make_bytes :: "nat \<Rightarrow> byte list" where
  "make_bytes n = replicate n 0"

subsection \<open>Nodes and the global state\<close>

text \<open>\<open>type attr fuse.Attr\<close>: the fields main.go reads or writes.\<close>

record attr =
  Inode :: "64 word"
  Size :: "64 word"
  Mode :: FileMode
  Ctime :: time
  Mtime :: time

record Dir = attr +
  children :: "string \<rightharpoonup> Node"

record File = attr +
  content :: slice

record Symlink = attr +
  target :: string

text \<open>
  The package-level variable \<open>lastInode\<close>, the heap, and the environment: the values
  successive calls of \<open>time.Now()\<close> return (\<open>clock\<close>, read at \<open>ticks\<close>) and the
  growth rule of \<open>append\<close>.
\<close>

record state =
  lastInode :: "64 word"
  dirs :: "Dir list"
  files :: "File list"
  symlinks :: "Symlink list"
  clock :: "nat \<Rightarrow> time"
  ticks :: nat
  slack :: "nat \<Rightarrow> nat \<Rightarrow> nat"

definition dir_at :: "state \<Rightarrow> nat \<Rightarrow> Dir option" where
  "dir_at s d = (if d < length (dirs s) then Some (dirs s ! d) else None)"

definition file_at :: "state \<Rightarrow> nat \<Rightarrow> File option" where
  "file_at s f = (if f < length (files s) then Some (files s ! f) else None)"

definition symlink_at :: "state \<Rightarrow> nat \<Rightarrow> Symlink option" where
  "symlink_at s l = (if l < length (symlinks s) then Some (symlinks s ! l) else None)"

definition time_Now :: "state \<Rightarrow> time \<times> state" where
  "time_Now s = (clock s (ticks s), s\<lparr>ticks := Suc (ticks s)\<rparr>)"

subsection \<open>Constructors\<close>

definition newNode :: "FileMode \<Rightarrow> state \<Rightarrow> attr \<times> state" where
  "newNode mode s =
     (let s1 = s\<lparr>lastInode := lastInode s + 1\<rparr>;
          (now, s2) = time_Now s1
      in (\<lparr>Inode = lastInode s2, Size = 0, Mode = mode, Ctime = now, Mtime = now\<rparr>, s2))"

definition newDir :: "FileMode \<Rightarrow> state \<Rightarrow> nat \<times> state" where
  "newDir mode s =
     (let (a, s1) = newNode (ModeDir OR mode) s
      in (length (dirs s1),
          s1\<lparr>dirs := dirs s1 @ [attr.extend a (Dir.fields Map.empty)]\<rparr>))"

definition newFile :: "FileMode \<Rightarrow> state \<Rightarrow> nat \<times> state" where
  "newFile mode s =
     (let (a, s1) = newNode mode s
      in (length (files s1),
          s1\<lparr>files := files s1 @ [attr.extend a (File.fields nil_slice)]\<rparr>))"

definition newSymlink :: "string \<Rightarrow> state \<Rightarrow> nat \<times> state" where
  "newSymlink tgt s =
     (let (a, s1) = newNode (ModeSymlink OR 292) s
      in (length (symlinks s1),
          s1\<lparr>symlinks := symlinks s1 @ [attr.extend a (Symlink.fields tgt)]\<rparr>))"

text \<open>
  The package-level initialisers: \<open>lastInode = 0\<close>, then \<open>root = newDir(0777)\<close>. The
  root is the directory at index 0.
\<close>

definition boot :: "(nat \<Rightarrow> time) \<Rightarrow> (nat \<Rightarrow> nat \<Rightarrow> nat) \<Rightarrow> state" where
  "boot clk slk =
     \<lparr>lastInode = 0, dirs = [], files = [], symlinks = [],
      clock = clk, ticks = 0, slack = slk\<rparr>"

definition init :: "(nat \<Rightarrow> time) \<Rightarrow> (nat \<Rightarrow> nat \<Rightarrow> nat) \<Rightarrow> state" where
  "init clk slk = snd (newDir 511 (boot clk slk))"

definition root :: nat where
  "root = 0"

subsection \<open>Directory methods\<close>

text \<open>
  Requests are passed field by field: \<open>Name\<close> and \<open>Mode\<close> of a MkdirRequest or
  CreateRequest, \<open>NewName\<close> of a LinkRequest, \<open>NewName\<close> and \<open>Target\<close> of a
  SymlinkRequest, \<open>Name\<close> of a RemoveRequest, \<open>OldName\<close> and \<open>NewName\<close> of a
  RenameRequest. The receiver \<open>d\<close> is a \<open>*Dir\<close>; dereferencing a pointer that is not
  in the heap panics.
\<close>

definition set_dir :: "nat \<Rightarrow> Dir \<Rightarrow> state \<Rightarrow> state" where
  "set_dir d v s = s\<lparr>dirs := (dirs s)[d := v]\<rparr>"

definition set_file :: "nat \<Rightarrow> File \<Rightarrow> state \<Rightarrow> state" where
  "set_file f v s = s\<lparr>files := (files s)[f := v]\<rparr>"

text \<open>\<open>d.children[name] = child; d.Mtime = time.Now()\<close>, the tail of Mkdir, Create, Link
  and Symlink.\<close>

definition insert_child :: "nat \<Rightarrow> string \<Rightarrow> Node \<Rightarrow> state \<Rightarrow> abort + state" where
  "insert_child d name child s =
     (case dir_at s d of
        None \<Rightarrow> Inl Panic
      | Some dr \<Rightarrow>
          let s1 = set_dir d (dr\<lparr>children := (children dr)(name \<mapsto> child)\<rparr>) s;
              (now, s2) = time_Now s1
          in (case dir_at s2 d of
                None \<Rightarrow> Inl Panic
              | Some dr2 \<Rightarrow> Inr (set_dir d (dr2\<lparr>Mtime := now\<rparr>) s2)))"

definition Dir_Lookup :: "nat \<Rightarrow> string \<Rightarrow> state \<Rightarrow> abort + (Node \<times> errno option) \<times> state" where
  "Dir_Lookup d name s =
     (case dir_at s d of
        None \<Rightarrow> Inl Panic
      | Some dr \<Rightarrow>
          (case children dr name of
             Some child \<Rightarrow> Inr ((child, None), s)
           | None \<Rightarrow> Inr ((NilNode, Some ENOENT), s)))"

definition Dir_Mkdir ::
  "nat \<Rightarrow> string \<Rightarrow> FileMode \<Rightarrow> state \<Rightarrow> abort + (Node \<times> errno option) \<times> state" where
  "Dir_Mkdir d Name mode s =
     (case dir_at s d of
        None \<Rightarrow> Inl Panic
      | Some dr \<Rightarrow>
          (case children dr Name of
             Some found \<Rightarrow> Inr ((NilNode, Some EEXIST), s)
           | None \<Rightarrow>
               let (child, s1) = newDir mode s
               in (case insert_child d Name (DirPtr child) s1 of
                     Inl a \<Rightarrow> Inl a
                   | Inr s2 \<Rightarrow> Inr ((DirPtr child, None), s2))))"

text \<open>Create returns the new file twice, as node and as handle; the model returns it
  once.\<close>

definition Dir_Create ::
  "nat \<Rightarrow> string \<Rightarrow> FileMode \<Rightarrow> state \<Rightarrow> abort + (Node \<times> errno option) \<times> state" where
  "Dir_Create d Name mode s =
     (let (child, s1) = newFile mode s
      in (case insert_child d Name (FilePtr child) s1 of
            Inl a \<Rightarrow> Inl a
          | Inr s2 \<Rightarrow> Inr ((FilePtr child, None), s2)))"

text \<open>Link returns its argument \<open>old\<close> and nil whether or not the type assertion
  \<open>old.(*File)\<close> held.\<close>

definition Dir_Link ::
  "nat \<Rightarrow> string \<Rightarrow> Node \<Rightarrow> state \<Rightarrow> abort + (Node \<times> errno option) \<times> state" where
  "Dir_Link d NewName old s =
     (case old of
        FilePtr f \<Rightarrow>
          (case insert_child d NewName (FilePtr f) s of
             Inl a \<Rightarrow> Inl a
           | Inr s1 \<Rightarrow> Inr ((old, None), s1))
      | _ \<Rightarrow> Inr ((old, None), s))"

definition Dir_Symlink ::
  "nat \<Rightarrow> string \<Rightarrow> string \<Rightarrow> state \<Rightarrow> abort + (Node \<times> errno option) \<times> state" where
  "Dir_Symlink d NewName Target s =
     (let (link, s1) = newSymlink Target s
      in (case insert_child d NewName (SymlinkPtr link) s1 of
            Inl a \<Rightarrow> Inl a
          | Inr s2 \<Rightarrow> Inr ((SymlinkPtr link, None), s2)))"

text \<open>\<open>delete(d.children, name); d.Mtime = time.Now()\<close>.\<close>

definition delete_child :: "nat \<Rightarrow> string \<Rightarrow> state \<Rightarrow> abort + state" where
  "delete_child d name s =
     (case dir_at s d of
        None \<Rightarrow> Inl Panic
      | Some dr \<Rightarrow>
          let s1 = set_dir d (dr\<lparr>children := (children dr)(name := None)\<rparr>) s;
              (now, s2) = time_Now s1
          in (case dir_at s2 d of
                None \<Rightarrow> Inl Panic
              | Some dr2 \<Rightarrow> Inr (set_dir d (dr2\<lparr>Mtime := now\<rparr>) s2)))"

text \<open>\<open>len(dir.children) > 0\<close> is \<open>children dir \<noteq> Map.empty\<close>. A missing name reads as
  the nil Node, on which the type assertion \<open>.(*Dir)\<close> fails.\<close>

definition Dir_Remove :: "nat \<Rightarrow> string \<Rightarrow> state \<Rightarrow> abort + errno option \<times> state" where
  "Dir_Remove d Name s =
     (case dir_at s d of
        None \<Rightarrow> Inl Panic
      | Some dr \<Rightarrow>
          (case (case children dr Name of
                   Some (DirPtr c) \<Rightarrow>
                     (case dir_at s c of
                        None \<Rightarrow> Inl Panic
                      | Some dir \<Rightarrow> Inr (children dir \<noteq> Map.empty))
                 | _ \<Rightarrow> Inr False) of
             Inl a \<Rightarrow> Inl a
           | Inr True \<Rightarrow> Inr (Some EEXIST, s)
           | Inr False \<Rightarrow>
               (case delete_child d Name s of
                  Inl a \<Rightarrow> Inl a
                | Inr s1 \<Rightarrow> Inr (None, s1))))"

text \<open>\<open>target := d.children[req.OldName]\<close> reads the nil Node for a missing name, and
  that is what is then stored under \<open>NewName\<close>. The parameter \<open>newDir\<close> of the source
  is \<open>newDirNode\<close> here.\<close>

definition Dir_Rename ::
  "nat \<Rightarrow> string \<Rightarrow> string \<Rightarrow> Node \<Rightarrow> state \<Rightarrow> abort + errno option \<times> state" where
  "Dir_Rename d OldName NewName newDirNode s =
     (case newDirNode of
        DirPtr destDir \<Rightarrow>
          (case dir_at s d of
             None \<Rightarrow> Inl Panic
           | Some dr \<Rightarrow>
               let target = (case children dr OldName of Some n \<Rightarrow> n | None \<Rightarrow> NilNode)
               in (case delete_child d OldName s of
                     Inl a \<Rightarrow> Inl a
                   | Inr s1 \<Rightarrow>
                       (case insert_child destDir NewName target s1 of
                          Inl a \<Rightarrow> Inl a
                        | Inr s2 \<Rightarrow> Inr (None, s2))))
      | _ \<Rightarrow> Inr (Some ENOENT, s))"

subsection \<open>Setattr requests\<close>

text \<open>
  The bits of \<open>fuse.SetattrValid\<close> that main.go names, with the values package
  bazil.org/fuse declares for them (\<open>1 << 0\<close> to \<open>1 << 6\<close>, and \<open>1 << 31\<close> for
  SetattrFlags). \<open>Valid.Mode()\<close>, \<open>Valid.Size()\<close> and \<open>Valid.Mtime()\<close> test one bit.
\<close>

definition SetattrMode :: SetattrValid where "SetattrMode = push_bit 0 1"
definition SetattrUid :: SetattrValid where "SetattrUid = push_bit 1 1"
definition SetattrGid :: SetattrValid where "SetattrGid = push_bit 2 1"
definition SetattrSize :: SetattrValid where "SetattrSize = push_bit 3 1"
definition SetattrAtime :: SetattrValid where "SetattrAtime = push_bit 4 1"
definition SetattrMtime :: SetattrValid where "SetattrMtime = push_bit 5 1"
definition SetattrHandle :: SetattrValid where "SetattrHandle = push_bit 6 1"
definition SetattrFlags :: SetattrValid where "SetattrFlags = push_bit 31 1"

text \<open>The fields of a \<open>fuse.SetattrRequest\<close> that main.go reads.\<close>

record SetattrRequest =
  Valid :: SetattrValid
  req_Size :: "64 word"
  req_Mode :: FileMode
  req_Mtime :: time

definition and_then :: "abort + 'a \<Rightarrow> ('a \<Rightarrow> abort + 'b) \<Rightarrow> abort + 'b" where
  "and_then r k = (case r of Inl a \<Rightarrow> Inl a | Inr x \<Rightarrow> k x)"

definition dir_handled :: SetattrValid where
  "dir_handled = SetattrMode OR SetattrMtime"

definition dir_ignored :: SetattrValid where
  "dir_ignored = SetattrAtime OR SetattrHandle"

definition Dir_Setattr :: "nat \<Rightarrow> SetattrRequest \<Rightarrow> state \<Rightarrow> abort + errno option \<times> state" where
  "Dir_Setattr d req s =
     (if Valid req AND NOT dir_handled AND NOT dir_ignored \<noteq> 0 then Inl LogFatal
      else
        and_then
          (if Valid req AND SetattrMode \<noteq> 0
           then (case dir_at s d of
                   None \<Rightarrow> Inl Panic
                 | Some dr \<Rightarrow> Inr (set_dir d (dr\<lparr>Mode := req_Mode req\<rparr>) s))
           else Inr s)
          (\<lambda>s1.
        and_then
          (if Valid req AND SetattrMtime \<noteq> 0
           then (case dir_at s1 d of
                   None \<Rightarrow> Inl Panic
                 | Some dr \<Rightarrow> Inr (set_dir d (dr\<lparr>Mtime := req_Mtime req\<rparr>) s1))
           else Inr s1)
          (\<lambda>s2. Inr (None, s2))))"

subsection \<open>File methods\<close>

text \<open>
  \<open>Offset\<close> is an int64 and \<open>Size\<close> an int: 64-bit words read as signed. The reply of
  Read is the bytes of the slice stored in \<open>resp.Data\<close>.
\<close>

definition File_Read ::
  "nat \<Rightarrow> 64 word \<Rightarrow> 64 word \<Rightarrow> state \<Rightarrow> abort + (byte list \<times> errno option) \<times> state" where
  "File_Read f Offset sz s =
     (case file_at s f of
        None \<Rightarrow> Inl Panic
      | Some fl \<Rightarrow>
          (case slice_low (content fl) (sint Offset) of
             None \<Rightarrow> Inl Panic
           | Some t \<Rightarrow>
               (case slice_high t (sint sz) of
                  None \<Rightarrow> Inl Panic
                | Some r \<Rightarrow> Inr ((elems r, None), s))))"

text \<open>
  Write. The local \<open>after\<close> is \<open>None\<close> for nil. It shares the backing array of
  \<open>f.content\<close>, occupying the positions from \<open>afterPos\<close> to the old length; when it is
  taken, \<open>afterPos\<close> is below the length, so the first \<open>append\<close> writes in place and only
  below \<open>afterPos\<close>: \<open>after\<close> still holds the bytes it was taken with when it is appended.
  The successive values of \<open>f.content\<close> are \<open>c1\<close>, \<open>c2\<close>, \<open>c3\<close>; the last is stored.
  The model returns \<open>resp.Size\<close> and the error.
\<close>

definition File_Write ::
  "nat \<Rightarrow> 64 word \<Rightarrow> byte list \<Rightarrow> state \<Rightarrow> abort + (nat \<times> errno option) \<times> state" where
  "File_Write f Offset Data s =
     (case file_at s f of
        None \<Rightarrow> Inl Panic
      | Some fl \<Rightarrow>
          let contentLen0 = (of_nat (len (content fl)) :: 64 word);
              padLen = Offset - contentLen0;
              (c1, contentLen) =
                (if 0 <s padLen
                 then (append_slice (slack s) (content fl) (make_bytes (nat (sint padLen))), Offset)
                 else (content fl, contentLen0));
              afterPos = Offset + of_nat (length Data)
          in (case (if afterPos <s contentLen
                    then map_option Some (slice_low c1 (sint afterPos))
                    else Some None) of
                None \<Rightarrow> Inl Panic
              | Some after \<Rightarrow>
                  (case slice_high c1 (sint Offset) of
                     None \<Rightarrow> Inl Panic
                   | Some pre \<Rightarrow>
                       let c2 = append_slice (slack s) pre Data;
                           c3 = (case after of
                                   None \<Rightarrow> c2
                                 | Some a \<Rightarrow> append_slice (slack s) c2 (elems a));
                           s1 = set_file f (fl\<lparr>content := c3\<rparr>) s;
                           (now, s2) = time_Now s1
                       in (case file_at s2 f of
                             None \<Rightarrow> Inl Panic
                           | Some fl2 \<Rightarrow>
                               Inr ((length Data, None),
                                    set_file f (fl2\<lparr>Mtime := now\<rparr>) s2)))))"

definition file_handled :: SetattrValid where
  "file_handled = SetattrSize OR SetattrMode OR SetattrMtime"

definition file_ignored :: SetattrValid where
  "file_ignored =
     SetattrAtime OR SetattrHandle OR SetattrUid OR SetattrGid OR SetattrFlags"

text \<open>The \<open>Size\<close> branch of File.Setattr: \<open>int(req.Size)\<close> reads the uint64 as signed,
  the index in \<open>f.content[:req.Size]\<close> is the unsigned value.\<close>

definition resize :: "nat \<Rightarrow> 64 word \<Rightarrow> state \<Rightarrow> abort + state" where
  "resize f sz s =
     (case file_at s f of
        None \<Rightarrow> Inl Panic
      | Some fl \<Rightarrow>
          let delta = sz - (of_nat (len (content fl)) :: 64 word)
          in if delta <s 0
             then (case slice_high (content fl) (uint sz) of
                     None \<Rightarrow> Inl Panic
                   | Some c \<Rightarrow> Inr (set_file f (fl\<lparr>content := c\<rparr>) s))
             else if 0 <s delta
             then Inr (set_file f
                        (fl\<lparr>content :=
                              append_slice (slack s) (content fl) (make_bytes (nat (sint delta)))\<rparr>) s)
             else Inr s)"

definition File_Setattr :: "nat \<Rightarrow> SetattrRequest \<Rightarrow> state \<Rightarrow> abort + errno option \<times> state" where
  "File_Setattr f req s =
     (if Valid req AND NOT file_handled AND NOT file_ignored \<noteq> 0 then Inl LogFatal
      else
        and_then
          (if Valid req AND SetattrSize \<noteq> 0 then resize f (req_Size req) s else Inr s)
          (\<lambda>s1.
        and_then
          (if Valid req AND SetattrMode \<noteq> 0
           then (case file_at s1 f of
                   None \<Rightarrow> Inl Panic
                 | Some fl \<Rightarrow> Inr (set_file f (fl\<lparr>Mode := req_Mode req\<rparr>) s1))
           else Inr s1)
          (\<lambda>s2.
        and_then
          (if Valid req AND SetattrMtime \<noteq> 0
           then (case file_at s2 f of
                   None \<Rightarrow> Inl Panic
                 | Some fl \<Rightarrow> Inr (set_file f (fl\<lparr>Mtime := req_Mtime req\<rparr>) s2))
           else Inr s2)
          (\<lambda>s3. Inr (None, s3)))))"

subsection \<open>Runs\<close>

text \<open>
  A run is the sequence of method calls the FUSE server makes on the tree, starting
  from \<open>init\<close>. \<open>perform\<close> executes one call and reports the inode of the node the call
  created, if it created one: the inode of the node that Mkdir, Create or Symlink
  returns without error. A run ends at the first call that does not return.
\<close>

datatype call =
    DirLookup nat string
  | DirMkdir nat string FileMode
  | DirCreate nat string FileMode
  | DirLink nat string Node
  | DirSymlink nat string string
  | DirRemove nat string
  | DirRename nat string string Node
  | DirSetattr nat SetattrRequest
  | FileRead nat "64 word" "64 word"
  | FileWrite nat "64 word" "byte list"
  | FileSetattr nat SetattrRequest

definition inode_of :: "state \<Rightarrow> Node \<Rightarrow> 64 word list" where
  "inode_of s n =
     (case n of
        NilNode \<Rightarrow> []
      | DirPtr d \<Rightarrow> (case dir_at s d of None \<Rightarrow> [] | Some x \<Rightarrow> [Inode x])
      | FilePtr f \<Rightarrow> (case file_at s f of None \<Rightarrow> [] | Some x \<Rightarrow> [Inode x])
      | SymlinkPtr l \<Rightarrow> (case symlink_at s l of None \<Rightarrow> [] | Some x \<Rightarrow> [Inode x]))"

definition created ::
  "abort + (Node \<times> errno option) \<times> state \<Rightarrow> abort + 64 word list \<times> state" where
  "created r =
     (case r of
        Inl a \<Rightarrow> Inl a
      | Inr ((n, None), s) \<Rightarrow> Inr (inode_of s n, s)
      | Inr ((n, Some e), s) \<Rightarrow> Inr ([], s))"

definition nothing_created :: "abort + 'a \<times> state \<Rightarrow> abort + 64 word list \<times> state" where
  "nothing_created r = (case r of Inl a \<Rightarrow> Inl a | Inr (x, s) \<Rightarrow> Inr ([], s))"

fun perform :: "call \<Rightarrow> state \<Rightarrow> abort + 64 word list \<times> state" where
  "perform (DirLookup d name) s = nothing_created (Dir_Lookup d name s)"
| "perform (DirMkdir d name mode) s = created (Dir_Mkdir d name mode s)"
| "perform (DirCreate d name mode) s = created (Dir_Create d name mode s)"
| "perform (DirLink d newName old) s = nothing_created (Dir_Link d newName old s)"
| "perform (DirSymlink d newName tgt) s = created (Dir_Symlink d newName tgt s)"
| "perform (DirRemove d name) s = nothing_created (Dir_Remove d name s)"
| "perform (DirRename d oldName newName nd) s =
     nothing_created (Dir_Rename d oldName newName nd s)"
| "perform (DirSetattr d req) s = nothing_created (Dir_Setattr d req s)"
| "perform (FileRead f off sz) s = nothing_created (File_Read f off sz s)"
| "perform (FileWrite f off data) s = nothing_created (File_Write f off data s)"
| "perform (FileSetattr f req) s = nothing_created (File_Setattr f req s)"

fun run :: "call list \<Rightarrow> state \<Rightarrow> abort + 64 word list \<times> state" where
  "run [] s = Inr ([], s)"
| "run (c # cs) s =
     (case perform c s of
        Inl a \<Rightarrow> Inl a
      | Inr (tr, s1) \<Rightarrow>
          (case run cs s1 of
             Inl a \<Rightarrow> Inl a
           | Inr (tr', s2) \<Rightarrow> Inr (tr @ tr', s2)))"

text \<open>The inodes of all nodes in the heap.\<close>

definition all_inodes :: "state \<Rightarrow> 64 word list" where
  "all_inodes s = map Inode (dirs s) @ map Inode (files s) @ map Inode (symlinks s)"

subsection \<open>Example states\<close>

text \<open>
  An environment for the examples: the clock counts its readings, and \<open>append\<close> grows a
  slice to exactly the needed size. That is one growth rule among those the model
  admits, not the one of Go's run-time, which allots more (5 bytes appended to the nil
  slice get capacity 8); what is stated about capacities below is stated for every
  growth rule. \<open>fresh\<close> is the tree at startup.
\<close>

definition no_slack :: "nat \<Rightarrow> nat \<Rightarrow> nat" where
  "no_slack c n = 0"

definition fresh :: state where
  "fresh = init int no_slack"

text \<open>The tree after \<open>mkdir bar\<close> in the root and \<open>create hello\<close> in \<open>bar\<close>.\<close>

definition bar_hello :: state where
  "bar_hello =
     \<lparr>lastInode = 3,
      dirs = [\<lparr>Inode = 1, Size = 0, Mode = ModeDir OR 511, Ctime = 0, Mtime = 2,
               children = [''bar'' \<mapsto> DirPtr 1]\<rparr>,
              \<lparr>Inode = 2, Size = 0, Mode = ModeDir OR 493, Ctime = 1, Mtime = 4,
               children = [''hello'' \<mapsto> FilePtr 0]\<rparr>],
      files = [\<lparr>Inode = 3, Size = 0, Mode = 420, Ctime = 3, Mtime = 3,
                content = nil_slice\<rparr>],
      symlinks = [],
      clock = int, ticks = 5, slack = no_slack\<rparr>"

text \<open>Setattr requests: one asking for a size, one for an access time, and one with
  bit 7, which neither Setattr names.\<close>

definition only_size :: "64 word \<Rightarrow> SetattrRequest" where
  "only_size n = \<lparr>Valid = SetattrSize, req_Size = n, req_Mode = 0, req_Mtime = 0\<rparr>"

definition only_atime :: SetattrRequest where
  "only_atime = \<lparr>Valid = SetattrAtime, req_Size = 0, req_Mode = 0, req_Mtime = 0\<rparr>"

definition bit_seven :: SetattrRequest where
  "bit_seven = \<lparr>Valid = push_bit 7 1, req_Size = 0, req_Mode = 0, req_Mtime = 0\<rparr>"

text \<open>The bytes of "hello", "hi" and "ab".\<close>

definition hello :: "byte list" where
  "hello = [104, 101, 108, 108, 111]"

definition hi :: "byte list" where
  "hi = [104, 105]"

definition ab :: "byte list" where
  "ab = [97, 98]"

text \<open>The example tree with the bytes \<open>xs\<close> as the content of its file.\<close>

definition holding :: "byte list \<Rightarrow> state" where
  "holding xs =
     bar_hello\<lparr>files := [(files bar_hello ! 0)\<lparr>content := \<lparr>elems = xs, spare = []\<rparr>\<rparr>]\<rparr>"

subsection \<open>The content a write must leave\<close>

text \<open>
  In the words of the specification: the bytes before the offset stay, a gap between
  the old end and the offset is filled with zero bytes, then comes the data, then
  the old bytes beyond the written range.
\<close>

definition written :: "byte list \<Rightarrow> nat \<Rightarrow> byte list \<Rightarrow> byte list" where
  "written old off data =
     take off old @ replicate (off - length old) 0 @ data @ drop (off + length data) old"

subsection \<open>Inodes along a run\<close>

text \<open>
  \<open>counts_from n tr\<close>: the trace \<open>tr\<close> is \<open>n + 1\<close>, \<open>n + 2\<close>, and so on, in 64-bit
  arithmetic. \<open>grows tr s s'\<close>: from \<open>s\<close> to \<open>s'\<close> every node kept its inode, the new nodes
  carry exactly the inodes of \<open>tr\<close>, and \<open>tr\<close> is what the counter of \<open>s\<close> hands out next.
  \<open>same_inodes\<close>: no node was added and none changed its inode.
\<close>

fun counts_from :: "64 word \<Rightarrow> 64 word list \<Rightarrow> bool" where
  "counts_from n [] = True"
| "counts_from n (x # xs) = (x = n + 1 \<and> counts_from (n + 1) xs)"

definition grows :: "64 word list \<Rightarrow> state \<Rightarrow> state \<Rightarrow> bool" where
  "grows tr s s' \<longleftrightarrow>
     (\<exists>a b c. map Inode (dirs s') = map Inode (dirs s) @ a
        \<and> map Inode (files s') = map Inode (files s) @ b
        \<and> map Inode (symlinks s') = map Inode (symlinks s) @ c
        \<and> mset (a @ b @ c) = mset tr)
     \<and> lastInode s' = lastInode s + of_nat (length tr)
     \<and> counts_from (lastInode s) tr"

definition same_inodes :: "state \<Rightarrow> state \<Rightarrow> bool" where
  "same_inodes s s' \<longleftrightarrow>
     map Inode (dirs s') = map Inode (dirs s)
     \<and> map Inode (files s') = map Inode (files s)
     \<and> map Inode (symlinks s') = map Inode (symlinks s)
     \<and> lastInode s' = lastInode s"

section \<open>Basic facts\<close>

lemmas heap_defs =
  dir_at_def file_at_def symlink_at_def set_dir_def set_file_def time_Now_def

lemmas new_defs =
  newNode_def newDir_def newFile_def newSymlink_def
  attr.defs Dir.defs File.defs Symlink.defs nil_slice_def

lemmas start_defs = fresh_def init_def boot_def root_def

lemma fresh_eq:
  "fresh =
     \<lparr>lastInode = 1,
      dirs = [\<lparr>Inode = 1, Size = 0, Mode = ModeDir OR 511, Ctime = 0, Mtime = 0,
               children = Map.empty\<rparr>],
      files = [], symlinks = [], clock = int, ticks = 1, slack = no_slack\<rparr>"
  by (simp add: start_defs new_defs heap_defs)

lemma insert_child_Some:
  assumes "dir_at s d = Some dr"
  shows "insert_child d name child s =
     Inr (s\<lparr>dirs := (dirs s)[d := dr\<lparr>children := (children dr)(name \<mapsto> child),
                                     Mtime := clock s (ticks s)\<rparr>],
            ticks := Suc (ticks s)\<rparr>)"
  using assms by (auto simp: insert_child_def heap_defs split: if_splits)

lemma delete_child_Some:
  assumes "dir_at s d = Some dr"
  shows "delete_child d name s =
     Inr (s\<lparr>dirs := (dirs s)[d := dr\<lparr>children := (children dr)(name := None),
                                     Mtime := clock s (ticks s)\<rparr>],
            ticks := Suc (ticks s)\<rparr>)"
  using assms by (auto simp: delete_child_def heap_defs split: if_splits)

lemma newNode_eq:
  "newNode mode s =
     (\<lparr>Inode = lastInode s + 1, Size = 0, Mode = mode,
       Ctime = clock s (ticks s), Mtime = clock s (ticks s)\<rparr>,
      s\<lparr>lastInode := lastInode s + 1, ticks := Suc (ticks s)\<rparr>)"
  by (simp add: newNode_def time_Now_def)

lemma newDir_eq:
  "newDir mode s =
     (length (dirs s),
      s\<lparr>lastInode := lastInode s + 1, ticks := Suc (ticks s),
        dirs := dirs s @
          [\<lparr>Inode = lastInode s + 1, Size = 0, Mode = ModeDir OR mode,
            Ctime = clock s (ticks s), Mtime = clock s (ticks s),
            children = Map.empty\<rparr>]\<rparr>)"
  by (simp add: newDir_def newNode_eq attr.defs Dir.defs)

lemma newFile_eq:
  "newFile mode s =
     (length (files s),
      s\<lparr>lastInode := lastInode s + 1, ticks := Suc (ticks s),
        files := files s @
          [\<lparr>Inode = lastInode s + 1, Size = 0, Mode = mode,
            Ctime = clock s (ticks s), Mtime = clock s (ticks s),
            content = nil_slice\<rparr>]\<rparr>)"
  by (simp add: newFile_def newNode_eq attr.defs File.defs)

lemma newSymlink_eq:
  "newSymlink tgt s =
     (length (symlinks s),
      s\<lparr>lastInode := lastInode s + 1, ticks := Suc (ticks s),
        symlinks := symlinks s @
          [\<lparr>Inode = lastInode s + 1, Size = 0, Mode = ModeSymlink OR 292,
            Ctime = clock s (ticks s), Mtime = clock s (ticks s),
            target = tgt\<rparr>]\<rparr>)"
  by (simp add: newSymlink_def newNode_eq attr.defs Symlink.defs)

text \<open>The example tree is the one the two calls build.\<close>

lemma bar_hello_reached:
  "run [DirMkdir root ''bar'' 493, DirCreate 1 ''hello'' 420] fresh = Inr ([2, 3], bar_hello)"
  by (simp add: fresh_eq root_def bar_hello_def Dir_Mkdir_def Dir_Create_def newDir_eq
      newFile_eq insert_child_def heap_defs created_def inode_of_def)

section \<open>Claims about directories\<close>

text \<open>
  C6. For every directory with an entry \<open>Name\<close> that references a child directory
  holding one or more entries, Remove fails with the error of the not-empty case and
  leaves the whole state unchanged: the parent, the child and its contents. The
  error main.go returns for "target is not empty" is \<open>fuse.EEXIST\<close>.
\<close>

theorem Dir_Remove_nonempty:
  assumes "dir_at s d = Some dr"
    and "children dr Name = Some (DirPtr c)"
    and "dir_at s c = Some cd"
    and "children cd \<noteq> Map.empty"
  shows "Dir_Remove d Name s = Inr (Some EEXIST, s)"
  using assms by (simp add: Dir_Remove_def)

theorem Dir_Remove_nonempty_witness:
  "dir_at bar_hello root = Some (dirs bar_hello ! 0)
   \<and> children (dirs bar_hello ! 0) ''bar'' = Some (DirPtr 1)
   \<and> dir_at bar_hello 1 = Some (dirs bar_hello ! 1)
   \<and> children (dirs bar_hello ! 1) \<noteq> Map.empty
   \<and> Dir_Remove root ''bar'' bar_hello = Inr (Some EEXIST, bar_hello)"
proof -
  have h1: "dir_at bar_hello root = Some (dirs bar_hello ! 0)"
    by (simp add: bar_hello_def dir_at_def root_def)
  have h2: "children (dirs bar_hello ! 0) ''bar'' = Some (DirPtr 1)"
    by (simp add: bar_hello_def)
  have h3: "dir_at bar_hello 1 = Some (dirs bar_hello ! 1)"
    by (simp add: bar_hello_def dir_at_def)
  have h4: "children (dirs bar_hello ! 1) \<noteq> Map.empty"
    by (simp add: bar_hello_def)
  show ?thesis
    using Dir_Remove_nonempty [OF h1 h2 h3 h4] h1 h2 h3 h4 by simp
qed

text \<open>
  C4, as the code has it. For every directory and every target that is not a File (a
  Directory, a Symlink or nil), Link leaves the state unchanged, so the entry set
  too, and returns the target itself with a nil error: it reports success, there is
  no InvalidTarget error. Only File targets are linked.
\<close>

theorem Dir_Link_not_file:
  assumes "\<forall>f. old \<noteq> FilePtr f"
  shows "Dir_Link d NewName old s = Inr ((old, None), s)"
  using assms by (cases old) (simp_all add: Dir_Link_def)

theorem Dir_Link_not_file_witness:
  "(\<forall>f. SymlinkPtr 0 \<noteq> FilePtr f)
   \<and> Dir_Link root ''x'' (SymlinkPtr 0) fresh = Inr ((SymlinkPtr 0, None), fresh)"
proof -
  have h: "\<forall>f. SymlinkPtr 0 \<noteq> FilePtr f" by simp
  show ?thesis using Dir_Link_not_file [OF h, of root "''x''" fresh] h by simp
qed

text \<open>C4 as stated fails: linking the root directory under a new name in the root
  returns a nil error.\<close>

theorem Dir_Link_directory_no_error:
  "Dir_Link root ''x'' (DirPtr root) fresh = Inr ((DirPtr root, None), fresh)"
  by (simp add: Dir_Link_def)

text \<open>
  C10. For every directory and every name that already has an entry, of whatever kind,
  Symlink returns without error: it allocates a new Symlink node, whose mode is
  \<open>os.ModeSymlink | 0444\<close> and whose target is the requested one, and stores it
  under the name in place of the old entry; the other entries stay. The request
  carries no mode. Nothing in Symlink tests whether the name is taken.
\<close>

theorem Dir_Symlink_occupied:
  assumes "dir_at s d = Some dr" and "children dr NewName = Some old"
  shows "\<exists>s' dr' l.
     Dir_Symlink d NewName Target s = Inr ((SymlinkPtr (length (symlinks s)), None), s')
     \<and> symlink_at s (length (symlinks s)) = None
     \<and> symlink_at s' (length (symlinks s)) = Some l
     \<and> Mode l = ModeSymlink OR 292 \<and> target l = Target
     \<and> dir_at s' d = Some dr'
     \<and> children dr' = (children dr)(NewName \<mapsto> SymlinkPtr (length (symlinks s)))"
proof -
  have d1: "dir_at (snd (newSymlink Target s)) d = Some dr"
    using assms(1) by (auto simp: newSymlink_eq dir_at_def split: if_splits)
  have d2: "d < length (dirs s)" "dirs s ! d = dr"
    using assms(1) by (auto simp: dir_at_def split: if_splits)
  show ?thesis
    using d2
    by (simp add: Dir_Symlink_def newSymlink_eq heap_defs
        insert_child_Some [OF d1 [unfolded newSymlink_eq snd_conv]])
qed

theorem Dir_Symlink_occupied_witness:
  "dir_at bar_hello 1 = Some (dirs bar_hello ! 1)
   \<and> children (dirs bar_hello ! 1) ''hello'' = Some (FilePtr 0)
   \<and> (\<exists>s' dr' l.
        Dir_Symlink 1 ''hello'' ''../x'' bar_hello = Inr ((SymlinkPtr 0, None), s')
        \<and> symlink_at s' 0 = Some l
        \<and> Mode l = ModeSymlink OR 292 \<and> target l = ''../x''
        \<and> dir_at s' 1 = Some dr'
        \<and> children dr' ''hello'' = Some (SymlinkPtr 0))"
proof -
  have h1: "dir_at bar_hello 1 = Some (dirs bar_hello ! 1)"
    by (simp add: bar_hello_def dir_at_def)
  have h2: "children (dirs bar_hello ! 1) ''hello'' = Some (FilePtr 0)"
    by (simp add: bar_hello_def)
  have n: "length (symlinks bar_hello) = 0"
    by (simp add: bar_hello_def)
  show ?thesis
    using Dir_Symlink_occupied [OF h1 h2, of "''../x''"] h1 h2 unfolding n
    by fastforce
qed

text \<open>Mkdir on a name that has an entry fails with \<open>fuse.EEXIST\<close> and changes
  nothing.\<close>

lemma Dir_Mkdir_existing:
  assumes "dir_at s d = Some dr" and "children dr Name = Some n"
  shows "Dir_Mkdir d Name mode s = Inr ((NilNode, Some EEXIST), s)"
  using assms by (simp add: Dir_Mkdir_def)

text \<open>
  C3, at a failing input. Create has no test for the name: in the example tree, where
  \<open>hello\<close> in \<open>bar\<close> is file 0 with inode 3, creating \<open>hello\<close> again returns a new file
  (file 1, inode 4) with a nil error, and the name now leads to the new file.
\<close>

theorem Dir_Create_existing:
  "Dir_Lookup 1 ''hello'' bar_hello = Inr ((FilePtr 0, None), bar_hello)
   \<and> (\<exists>s'. Dir_Create 1 ''hello'' 420 bar_hello = Inr ((FilePtr 1, None), s')
        \<and> Dir_Lookup 1 ''hello'' s' = Inr ((FilePtr 1, None), s')
        \<and> inode_of s' (FilePtr 0) = [3] \<and> inode_of s' (FilePtr 1) = [4])"
  by (simp add: bar_hello_def Dir_Lookup_def Dir_Create_def newFile_eq insert_child_def
      heap_defs inode_of_def)

text \<open>
  C5, at a failing input. Rename does not test that the old name has an entry: in the
  example tree, renaming the absent \<open>nosuch\<close> of the root to \<open>new\<close> in \<open>bar\<close> returns a
  nil error, and \<open>bar\<close> then has an entry \<open>new\<close> that holds the nil Node.
\<close>

theorem Dir_Rename_missing:
  "Dir_Lookup root ''nosuch'' bar_hello = Inr ((NilNode, Some ENOENT), bar_hello)
   \<and> Dir_Lookup 1 ''new'' bar_hello = Inr ((NilNode, Some ENOENT), bar_hello)
   \<and> (\<exists>s'. Dir_Rename root ''nosuch'' ''new'' (DirPtr 1) bar_hello = Inr (None, s')
        \<and> Dir_Lookup 1 ''new'' s' = Inr ((NilNode, None), s'))"
  by (simp add: bar_hello_def Dir_Lookup_def Dir_Rename_def delete_child_def insert_child_def
      heap_defs root_def)

section \<open>Claims about Setattr\<close>

lemmas setattr_bits =
  SetattrMode_def SetattrUid_def SetattrGid_def SetattrSize_def
  SetattrAtime_def SetattrMtime_def SetattrHandle_def SetattrFlags_def
  dir_handled_def dir_ignored_def file_handled_def file_ignored_def

lemma Dir_Setattr_err_None: "Dir_Setattr d req s = Inr (e, s') \<Longrightarrow> e = None"
  by (auto simp: Dir_Setattr_def and_then_def split: if_splits option.splits sum.splits)

lemma File_Setattr_err_None: "File_Setattr f req s = Inr (e, s') \<Longrightarrow> e = None"
  by (auto simp: File_Setattr_def and_then_def split: if_splits option.splits sum.splits)

lemma and_not_ignored:
  fixes v b i :: SetattrValid
  assumes "v AND NOT i = 0" and "b AND NOT i = b"
  shows "v AND b = 0"
proof -
  have "v AND b = (v AND NOT i) AND b"
    using assms(2) by (metis and.assoc and.commute)
  then show ?thesis using assms(1) by simp
qed

lemma only_ignored_dir:
  assumes "v AND NOT dir_ignored = 0"
  shows "v AND NOT dir_handled AND NOT dir_ignored = 0"
    and "v AND SetattrMode = 0" and "v AND SetattrMtime = 0"
proof -
  have "v AND NOT dir_handled AND NOT dir_ignored = (v AND NOT dir_ignored) AND NOT dir_handled"
    by (simp add: ac_simps)
  then show "v AND NOT dir_handled AND NOT dir_ignored = 0" using assms by simp
  show "v AND SetattrMode = 0"
    by (rule and_not_ignored [OF assms]) (simp add: setattr_bits)
  show "v AND SetattrMtime = 0"
    by (rule and_not_ignored [OF assms]) (simp add: setattr_bits)
qed

lemma only_ignored_file:
  assumes "v AND NOT file_ignored = 0"
  shows "v AND NOT file_handled AND NOT file_ignored = 0"
    and "v AND SetattrMode = 0" and "v AND SetattrMtime = 0" and "v AND SetattrSize = 0"
proof -
  have "v AND NOT file_handled AND NOT file_ignored
          = (v AND NOT file_ignored) AND NOT file_handled"
    by (simp add: ac_simps)
  then show "v AND NOT file_handled AND NOT file_ignored = 0" using assms by simp
  show "v AND SetattrMode = 0"
    by (rule and_not_ignored [OF assms]) (simp add: setattr_bits)
  show "v AND SetattrMtime = 0"
    by (rule and_not_ignored [OF assms]) (simp add: setattr_bits)
  show "v AND SetattrSize = 0"
    by (rule and_not_ignored [OF assms]) (simp add: setattr_bits)
qed

text \<open>
  C2, as the code has it. For every Directory or File node and every setattr request:
  a request with a bit outside the handled and the ignored sets ends the process
  through \<open>log.Fatal\<close>; a request whose bits are all in the ignored set (atime and handle,
  for files also uid, gid and flags) returns nil and changes nothing; and whenever
  Setattr returns, the error is nil. There is no UnsupportedAttribute error.
\<close>

theorem Setattr_unrecognized:
  "(Valid req AND NOT dir_handled AND NOT dir_ignored \<noteq> 0
      \<longrightarrow> Dir_Setattr d req s = Inl LogFatal)
   \<and> (Valid req AND NOT file_handled AND NOT file_ignored \<noteq> 0
      \<longrightarrow> File_Setattr f req s = Inl LogFatal)
   \<and> (Valid req AND NOT dir_ignored = 0 \<longrightarrow> Dir_Setattr d req s = Inr (None, s))
   \<and> (Valid req AND NOT file_ignored = 0 \<longrightarrow> File_Setattr f req s = Inr (None, s))
   \<and> (\<forall>e s'. Dir_Setattr d req s = Inr (e, s') \<longrightarrow> e = None)
   \<and> (\<forall>e s'. File_Setattr f req s = Inr (e, s') \<longrightarrow> e = None)"
proof (intro conjI impI allI)
  show "Dir_Setattr d req s = Inl LogFatal"
    if "Valid req AND NOT dir_handled AND NOT dir_ignored \<noteq> 0"
    using that by (simp add: Dir_Setattr_def)
  show "File_Setattr f req s = Inl LogFatal"
    if "Valid req AND NOT file_handled AND NOT file_ignored \<noteq> 0"
    using that by (simp add: File_Setattr_def)
  show "Dir_Setattr d req s = Inr (None, s)" if "Valid req AND NOT dir_ignored = 0"
    using only_ignored_dir [OF that] by (simp add: Dir_Setattr_def and_then_def)
  show "File_Setattr f req s = Inr (None, s)" if "Valid req AND NOT file_ignored = 0"
    using only_ignored_file [OF that] by (simp add: File_Setattr_def and_then_def)
  show "e = None" if "Dir_Setattr d req s = Inr (e, s')" for e s'
    using that by (rule Dir_Setattr_err_None)
  show "e = None" if "File_Setattr f req s = Inr (e, s')" for e s'
    using that by (rule File_Setattr_err_None)
qed

theorem Setattr_unrecognized_witness:
  "Dir_Setattr root (only_size 0) bar_hello = Inl LogFatal
   \<and> File_Setattr 0 bit_seven bar_hello = Inl LogFatal
   \<and> Dir_Setattr root only_atime bar_hello = Inr (None, bar_hello)
   \<and> File_Setattr 0 only_atime bar_hello = Inr (None, bar_hello)"
proof -
  have h1: "Valid (only_size 0) AND NOT dir_handled AND NOT dir_ignored \<noteq> 0"
    by (simp add: only_size_def setattr_bits)
  have h2: "Valid bit_seven AND NOT file_handled AND NOT file_ignored \<noteq> 0"
    by (simp add: bit_seven_def setattr_bits)
  have h3: "Valid only_atime AND NOT dir_ignored = 0"
    by (simp add: only_atime_def setattr_bits)
  have h4: "Valid only_atime AND NOT file_ignored = 0"
    by (simp add: only_atime_def setattr_bits)
  show ?thesis
    using Setattr_unrecognized [of "only_size 0" root bar_hello 0]
      Setattr_unrecognized [of bit_seven root bar_hello 0]
      Setattr_unrecognized [of only_atime root bar_hello 0] h1 h2 h3 h4
    by simp
qed

text \<open>C2 as stated fails: a size field in a Setattr on the root directory ends the
  process instead of returning an error.\<close>

theorem Dir_Setattr_size_fatal:
  "Dir_Setattr root (only_size 0) fresh = Inl LogFatal"
  by (simp add: Dir_Setattr_def only_size_def setattr_bits)

section \<open>Claims about file contents\<close>

lemmas slice_defs =
  slice_low_def slice_high_def append_slice_def len_def cap_def nil_slice_def
  make_bytes_def

lemma replicate_two: "replicate 2 (0 :: byte) = [0, 0]"
  by (simp add: numeral_2_eq_2)

lemma Suc5: "Suc (Suc (Suc (Suc (Suc 0)))) = 5"
  by simp

text \<open>
  C1, at failing inputs, for every growth rule \<open>slk\<close> of \<open>append\<close>. Read slices without
  a test. On the empty file of the example tree, reading one byte at offset 0 panics,
  and so does reading at offset 1. After "hello" is written, reading 5 bytes at 0
  returns them and any read at offset 6 panics. Reading 4 bytes at offset 3 is not
  truncated to the 2 bytes of content that are left: it panics when the write left
  fewer than 2 bytes of spare capacity, and otherwise returns the 2 bytes followed by
  2 zero bytes of the spare capacity. And once the file is cut to 3 bytes, a read of 5
  bytes returns the 2 bytes that the backing array still holds after the content.
\<close>

theorem File_Read_out_of_range:
  "File_Read 0 0 1 (bar_hello\<lparr>slack := slk\<rparr>) = Inl Panic
   \<and> File_Read 0 1 0 (bar_hello\<lparr>slack := slk\<rparr>) = Inl Panic
   \<and> (\<exists>s' s''. File_Write 0 0 hello (bar_hello\<lparr>slack := slk\<rparr>) = Inr ((5, None), s')
        \<and> File_Read 0 0 5 s' = Inr ((hello, None), s')
        \<and> File_Read 0 3 4 s' =
              (if slk 0 5 < 2 then Inl Panic else Inr (([108, 111, 0, 0], None), s'))
        \<and> File_Read 0 6 1 s' = Inl Panic
        \<and> File_Setattr 0 (only_size 3) s' = Inr (None, s'')
        \<and> File_Read 0 0 3 s'' = Inr ((take 3 hello, None), s'')
        \<and> File_Read 0 0 5 s'' = Inr ((hello, None), s''))"
  by (auto simp: bar_hello_def File_Read_def File_Write_def File_Setattr_def resize_def
      and_then_def only_size_def setattr_bits hello_def heap_defs slice_defs
      word_sless_alt Let_def replicate_two Suc5)

subsection \<open>Signed readings without wrap-around\<close>

lemma sint_small:
  fixes w :: "64 word"
  assumes "uint w < 2 ^ 63" shows "sint w = uint w"
proof -
  have "- (2 ^ 63) \<le> uint w" by (rule order_trans [of _ 0]) simp_all
  then show ?thesis using assms
    by (simp add: sint_uint signed_take_bit_int_eq_self)
qed

lemma sint_of_nat_64:
  assumes "n < 2 ^ 63" shows "sint (of_nat n :: 64 word) = int n"
proof -
  have "sint (of_nat n :: 64 word) = signed_take_bit 63 (int n)"
    using sint_sbintrunc' [where 'a = 64, of "int n"] by simp
  also have "\<dots> = int n"
    using assms by (intro signed_take_bit_int_eq_self) auto
  finally show ?thesis .
qed

lemma sint_diff_64:
  fixes a b :: "64 word"
  assumes "- (2 ^ 63) \<le> sint a - sint b" and "sint a - sint b < 2 ^ 63"
  shows "sint (a - b) = sint a - sint b"
  using assms by (simp add: sint_word_diff signed_take_bit_int_eq_self)

lemma sint_add_64:
  fixes a b :: "64 word"
  assumes "- (2 ^ 63) \<le> sint a + sint b" and "sint a + sint b < 2 ^ 63"
  shows "sint (a + b) = sint a + sint b"
  using assms by (simp add: sint_word_add signed_take_bit_int_eq_self)

subsection \<open>Resizing\<close>

lemma resize_elems:
  assumes fl: "file_at s f = Some fl"
    and sz: "uint sz < 2 ^ 63"
    and ln: "len (content fl) < 2 ^ 63"
  shows "\<exists>s1 fl1. resize f sz s = Inr s1 \<and> file_at s1 f = Some fl1
     \<and> elems (content fl1) =
         take (unat sz) (elems (content fl)) @ replicate (unat sz - len (content fl)) 0
     \<and> dirs s1 = dirs s \<and> symlinks s1 = symlinks s \<and> lastInode s1 = lastInode s"
proof -
  let ?L = "len (content fl)"
  have f: "f < length (files s)" "files s ! f = fl"
    using fl by (auto simp: file_at_def split: if_splits)
  have sl: "sint (of_nat ?L :: 64 word) = int ?L"
    using ln by (rule sint_of_nat_64)
  have ss: "sint sz = uint sz" using sz by (rule sint_small)
  have u: "uint sz = int (unat sz)" by simp
  have li: "int ?L < 2 ^ 63" using ln by simp
  have nn: "0 \<le> uint sz" by simp
  have "sint sz - sint (of_nat ?L :: 64 word) < 2 ^ 63"
    unfolding ss sl using sz by linarith
  moreover have "- (2 ^ 63) \<le> sint sz - sint (of_nat ?L :: 64 word)"
    unfolding ss sl using li nn by linarith
  ultimately have d: "sint (sz - of_nat ?L) = uint sz - int ?L"
    using sint_diff_64 [of sz "of_nat ?L"] ss sl by simp
  consider (shrink) "unat sz < ?L" | (grow) "?L < unat sz" | (same) "unat sz = ?L"
    by linarith
  then show ?thesis
  proof cases
    case shrink
    then have "uint sz < int ?L" using u by linarith
    then show ?thesis
      using f d fl shrink
      by (simp add: resize_def Let_def word_sless_alt slice_high_def cap_def len_def
          set_file_def file_at_def)
  next
    case grow
    then have "int ?L < uint sz" using u by linarith
    then show ?thesis
      using f d fl grow
      by (simp add: resize_def Let_def word_sless_alt append_slice_def make_bytes_def
          cap_def len_def set_file_def file_at_def nat_diff_distrib)
  next
    case same
    then have "uint sz = int ?L" using u by linarith
    then show ?thesis
      using f d fl same
      by (simp add: resize_def Let_def word_sless_alt len_def)
  qed
qed


subsection \<open>Writing\<close>

lemma elems_append_slice [simp]: "elems (append_slice k s xs) = elems s @ xs"
  by (simp add: append_slice_def)

lemma cap_append_slice: "length (elems s) + length xs \<le> cap (append_slice k s xs)"
  by (simp add: append_slice_def len_def cap_def)

lemma slice_high_Some:
  assumes "0 \<le> h" and "nat h \<le> cap s"
  shows "slice_high s h = Some \<lparr>elems = take (nat h) (elems s @ spare s),
                                 spare = drop (nat h) (elems s @ spare s)\<rparr>"
  using assms by (simp add: slice_high_def)

lemma slice_low_Some:
  assumes "0 \<le> l" and "nat l \<le> length (elems s)"
  shows "slice_low s l = Some \<lparr>elems = drop (nat l) (elems s), spare = spare s\<rparr>"
  using assms by (simp add: slice_low_def len_def)

lemma File_Write_elems:
  assumes fl: "file_at s f = Some fl"
    and off: "0 \<le> sint Offset"
    and rng: "sint Offset + int (length Data) < 2 ^ 63"
    and cp: "cap (content fl) < 2 ^ 63"
  shows "\<exists>s' fl'. File_Write f Offset Data s = Inr ((length Data, None), s')
     \<and> file_at s' f = Some fl'
     \<and> elems (content fl') = written (elems (content fl)) (nat (sint Offset)) Data"
proof -
  let ?c = "content fl"
  let ?L = "length (elems ?c)"
  let ?off = "nat (sint Offset)"
  let ?n = "length Data"
  have f: "f < length (files s)" "files s ! f = fl"
    using fl by (auto simp: file_at_def split: if_splits)
  have Lc: "?L \<le> cap ?c" by (simp add: cap_def)
  then have L: "?L < 2 ^ 63" using cp by linarith
  have sL: "sint (of_nat ?L :: 64 word) = int ?L"
    using L by (rule sint_of_nat_64)
  have iL: "int ?L < 2 ^ 63" using L by simp
  have p63: "(0::int) < 2 ^ 63" by simp
  have n: "int ?n < 2 ^ 63" using off rng by linarith
  then have "?n < 2 ^ 63" by simp
  then have sn: "sint (of_nat ?n :: 64 word) = int ?n" by (rule sint_of_nat_64)
  have so: "sint Offset < 2 ^ 63" using rng by linarith
  have io: "int ?off = sint Offset" using off by simp
  have pad: "sint (Offset - of_nat ?L) = sint Offset - int ?L"
  proof -
    have "- (2 ^ 63) \<le> sint Offset - sint (of_nat ?L :: 64 word)"
      unfolding sL using off iL p63 by linarith
    moreover have "sint Offset - sint (of_nat ?L :: 64 word) < 2 ^ 63"
      unfolding sL using so by linarith
    ultimately show ?thesis using sint_diff_64 [of Offset "of_nat ?L"] sL by simp
  qed
  have aft: "sint (Offset + of_nat ?n) = sint Offset + int ?n"
  proof -
    have "- (2 ^ 63) \<le> sint Offset + sint (of_nat ?n :: 64 word)"
      unfolding sn using off p63 by linarith
    moreover have "sint Offset + sint (of_nat ?n :: 64 word) < 2 ^ 63"
      unfolding sn using rng by linarith
    ultimately show ?thesis using sint_add_64 [of Offset "of_nat ?n"] sn by simp
  qed
  have c_pad: "(0 <s Offset - of_nat ?L) = (?L < ?off)"
    unfolding word_sless_alt pad using io by (simp; linarith)
  have n_pad: "nat (sint (Offset - of_nat ?L)) = ?off - ?L"
    unfolding pad using io by linarith
  have c_gap: "(Offset + of_nat ?n <s Offset) = False"
    unfolding word_sless_alt aft by simp
  have c_aft: "(Offset + of_nat ?n <s of_nat ?L) = (?off + ?n < ?L)"
    unfolding word_sless_alt aft sL using io by linarith
  have a0: "0 \<le> sint (Offset + of_nat ?n)" unfolding aft using off by simp
  have an: "nat (sint (Offset + of_nat ?n)) = ?off + ?n"
    unfolding aft using off by (simp add: nat_add_distrib)
  consider (gap) "?L < ?off" | (inside) "?off \<le> ?L" "?off + ?n < ?L"
    | (tail) "?off \<le> ?L" "?L \<le> ?off + ?n"
    by linarith
  then show ?thesis
  proof cases
    case gap
    let ?c1 = "append_slice (slack s) ?c (make_bytes (?off - ?L))"
    have "?L + (?off - ?L) \<le> cap ?c1"
      using cap_append_slice [of ?c "make_bytes (?off - ?L)" "slack s"]
      by (simp add: make_bytes_def)
    then have hc: "?off \<le> cap ?c1" using gap by linarith
    have l1: "length (elems ?c1) = ?off" using gap by (simp add: make_bytes_def)
    have tk: "take ?off (elems ?c1 @ spare ?c1) = elems ?c @ replicate (?off - ?L) 0"
      using l1 by (simp add: make_bytes_def)
    note sh = slice_high_Some [OF off hc, unfolded tk]
    have w: "written (elems ?c) ?off Data = elems ?c @ replicate (?off - ?L) 0 @ Data"
      using gap by (simp add: written_def)
    show ?thesis
      unfolding File_Write_def w
      using f gap
      by (simp add: fl Let_def c_pad n_pad c_gap sh set_file_def file_at_def time_Now_def len_def)
  next
    case inside
    have "nat (sint (Offset + of_nat ?n)) \<le> ?L" using an inside by linarith
    note sl = slice_low_Some [OF a0 this, unfolded an]
    have hc: "?off \<le> cap ?c" using inside Lc by linarith
    have tk: "take ?off (elems ?c @ spare ?c) = take ?off (elems ?c)"
      using inside by simp
    note sh = slice_high_Some [OF off hc, unfolded tk]
    have w: "written (elems ?c) ?off Data = take ?off (elems ?c) @ Data @ drop (?off + ?n) (elems ?c)"
      using inside by (simp add: written_def)
    show ?thesis
      unfolding File_Write_def w
      using f inside
      by (simp add: fl Let_def c_pad c_aft sl sh set_file_def file_at_def time_Now_def len_def)
  next
    case tail
    have hc: "?off \<le> cap ?c" using tail Lc by linarith
    have tk: "take ?off (elems ?c @ spare ?c) = take ?off (elems ?c)"
      using tail by simp
    note sh = slice_high_Some [OF off hc, unfolded tk]
    have w: "written (elems ?c) ?off Data = take ?off (elems ?c) @ Data"
      using tail by (simp add: written_def)
    show ?thesis
      unfolding File_Write_def w
      using f tail
      by (simp add: fl Let_def c_pad c_aft sh set_file_def file_at_def time_Now_def len_def)
  qed
qed


lemma length_written:
  "length (written old off data) = max (length old) (off + length data)"
  by (auto simp: written_def)

lemma written_gap:
  assumes "length old \<le> i" and "i < off"
  shows "written old off data ! i = 0"
  using assms by (auto simp: written_def nth_append)

lemma written_data:
  assumes "i < length data"
  shows "written old off data ! (off + i) = data ! i"
proof (cases "off \<le> length old")
  case True
  then show ?thesis using assms by (simp add: written_def nth_append)
next
  case False
  then have "written old off data = (old @ replicate (off - length old) 0) @ data"
    by (simp add: written_def)
  moreover have "length (old @ replicate (off - length old) 0) = off"
    using False by simp
  ultimately show ?thesis by (metis nth_append_length_plus)
qed

lemma written_after:
  assumes "off + length data \<le> i" and "i < length old"
  shows "written old off data ! i = old ! i"
proof -
  have "written old off data = (take off old @ data) @ drop (off + length data) old"
    using assms by (simp add: written_def)
  moreover have "length (take off old @ data) = off + length data"
    using assms by simp
  ultimately have "written old off data ! i = drop (off + length data) old ! (i - (off + length data))"
    using assms by (metis leD nth_append)
  then show ?thesis using assms by simp
qed

lemma written_before:
  assumes "i < off" and "i < length old"
  shows "written old off data ! i = old ! i"
  using assms by (simp add: written_def nth_append)

lemma File_Read_all:
  assumes fl: "file_at s f = Some fl" and ln: "length (elems (content fl)) < 2 ^ 63"
  shows "File_Read f 0 (of_nat (length (elems (content fl)))) s = Inr ((elems (content fl), None), s)"
  using fl sint_of_nat_64 [OF ln]
  by (simp add: File_Read_def slice_low_def slice_high_def len_def cap_def)

text \<open>
  C7. For every file with buffer length \<open>L\<close> and every write of \<open>Data\<close> at a
  non-negative offset (with offset plus length of the data, and the capacity of the
  buffer, within the range of int64): Write returns \<open>len(Data)\<close> and no error; the
  new length is the larger of \<open>L\<close> and offset plus \<open>len(Data)\<close>, so the buffer never
  shrinks; the gap from \<open>L\<close> to the offset holds zero bytes; the bytes from the offset
  on are the data; the old bytes beyond the written range, and those before the
  offset, are kept; and reading the whole new length back at offset 0 returns the new
  content. The witness is the example of the claim: on an empty file, writing "hi" at
  offset 5 and reading 7 bytes at 0 gives five zero bytes and "hi".
\<close>

theorem File_Write_contents:
  assumes fl: "file_at s f = Some fl"
    and off: "0 \<le> sint Offset"
    and rng: "sint Offset + int (length Data) < 2 ^ 63"
    and cp: "cap (content fl) < 2 ^ 63"
  shows "\<exists>s' fl'. File_Write f Offset Data s = Inr ((length Data, None), s')
     \<and> file_at s' f = Some fl'
     \<and> length (elems (content fl')) =
         max (length (elems (content fl))) (nat (sint Offset) + length Data)
     \<and> length (elems (content fl)) \<le> length (elems (content fl'))
     \<and> (\<forall>i. length (elems (content fl)) \<le> i \<and> i < nat (sint Offset)
           \<longrightarrow> elems (content fl') ! i = 0)
     \<and> (\<forall>i. i < length Data \<longrightarrow> elems (content fl') ! (nat (sint Offset) + i) = Data ! i)
     \<and> (\<forall>i. nat (sint Offset) + length Data \<le> i \<and> i < length (elems (content fl))
           \<longrightarrow> elems (content fl') ! i = elems (content fl) ! i)
     \<and> (\<forall>i. i < nat (sint Offset) \<and> i < length (elems (content fl))
           \<longrightarrow> elems (content fl') ! i = elems (content fl) ! i)
     \<and> File_Read f 0 (of_nat (length (elems (content fl')))) s'
           = Inr ((elems (content fl'), None), s')"
proof -
  obtain s' fl' where w: "File_Write f Offset Data s = Inr ((length Data, None), s')"
    and fl': "file_at s' f = Some fl'"
    and e: "elems (content fl') = written (elems (content fl)) (nat (sint Offset)) Data"
    using File_Write_elems [OF assms] by blast
  have "length (elems (content fl)) \<le> cap (content fl)" by (simp add: cap_def)
  then have "length (elems (content fl)) < 2 ^ 63" using cp by linarith
  moreover have "int (nat (sint Offset) + length Data) < 2 ^ 63"
    using off rng by (simp only: of_nat_add int_nat_eq if_True)
  then have "nat (sint Offset) + length Data < 2 ^ 63"
    by (simp only: of_nat_less_numeral_power_cancel_iff)
  ultimately have ln: "length (elems (content fl')) < 2 ^ 63"
    unfolding e length_written by (auto simp: max_def)
  show ?thesis
    using w fl' File_Read_all [OF fl' ln]
    by (auto simp: e length_written written_gap written_data written_after written_before)
qed

theorem File_Write_contents_witness:
  "file_at bar_hello 0 = Some (files bar_hello ! 0)
   \<and> 0 \<le> sint (5 :: 64 word)
   \<and> sint (5 :: 64 word) + int (length hi) < 2 ^ 63
   \<and> cap (content (files bar_hello ! 0)) < 2 ^ 63
   \<and> (\<exists>s'. File_Write 0 5 hi bar_hello = Inr ((2, None), s')
        \<and> File_Read 0 0 7 s' = Inr ((replicate 5 0 @ hi, None), s'))"
proof -
  have h1: "file_at bar_hello 0 = Some (files bar_hello ! 0)"
    by (simp add: bar_hello_def file_at_def)
  have h2: "0 \<le> sint (5 :: 64 word)" by simp
  have h3: "sint (5 :: 64 word) + int (length hi) < 2 ^ 63" by (simp add: hi_def)
  have h4: "cap (content (files bar_hello ! 0)) < 2 ^ 63"
    by (simp add: bar_hello_def cap_def nil_slice_def)
  have e: "elems (content (files bar_hello ! 0)) = []"
    by (simp add: bar_hello_def nil_slice_def)
  obtain s' and fl' :: File
    where w: "File_Write 0 5 hi bar_hello = Inr ((length hi, None), s')"
    and l: "length (elems (content fl')) = max (length (elems (content (files bar_hello ! 0)))) (nat (sint (5 :: 64 word)) + length hi)"
    and z: "\<forall>i. length (elems (content (files bar_hello ! 0))) \<le> i \<and> i < nat (sint (5 :: 64 word))
           \<longrightarrow> elems (content fl') ! i = 0"
    and d: "\<forall>i. i < length hi \<longrightarrow> elems (content fl') ! (nat (sint (5 :: 64 word)) + i) = hi ! i"
    and r: "File_Read 0 0 (of_nat (length (elems (content fl')))) s'
           = Inr ((elems (content fl'), None), s')"
    using File_Write_contents [OF h1 h2 h3 h4] by blast
  have l7: "length (elems (content fl')) = 7" using l by (simp add: e hi_def)
  have "elems (content fl') = replicate 5 0 @ hi"
  proof (rule nth_equalityI)
    show "length (elems (content fl')) = length (replicate 5 0 @ hi)"
      using l7 by (simp add: hi_def)
    fix i assume "i < length (elems (content fl'))"
    then have i: "i < 7" using l7 by simp
    show "elems (content fl') ! i = (replicate 5 0 @ hi) ! i"
    proof (cases "i < 5")
      case True
      then show ?thesis using z [rule_format, of i] by (simp add: e nth_append)
    next
      case False
      then have "i - 5 < length hi" using i by (simp add: hi_def)
      from d [rule_format, OF this] False show ?thesis by (simp add: nth_append)
    qed
  qed
  with w r l7 h1 h2 h3 h4 show ?thesis by (simp add: hi_def)
qed

text \<open>
  C8. For every file and every Setattr request with the size bit set (and no bit
  outside the handled and ignored ones; the requested size and the length of the
  buffer below \<open>2^63\<close>, the range of int): Setattr returns nil and the buffer has
  exactly the requested length: its first bytes are the old ones, cut at the
  requested size, and whatever the size exceeds the old length by is zero bytes. The
  witness has the two examples of the claim: size 3 on "hello" gives "hel", size 5 on
  "ab" gives "ab" and three zero bytes.
\<close>

theorem File_Setattr_size:
  assumes fl: "file_at s f = Some fl"
    and v: "Valid req AND NOT file_handled AND NOT file_ignored = 0"
    and sb: "Valid req AND SetattrSize \<noteq> 0"
    and sz: "unat (req_Size req) < 2 ^ 63"
    and ln: "len (content fl) < 2 ^ 63"
  shows "\<exists>s' fl'. File_Setattr f req s = Inr (None, s') \<and> file_at s' f = Some fl'
     \<and> len (content fl') = unat (req_Size req)
     \<and> elems (content fl') =
         take (unat (req_Size req)) (elems (content fl))
         @ replicate (unat (req_Size req) - len (content fl)) 0"
proof -
  have sz': "uint (req_Size req) < 2 ^ 63"
    using sz by (simp only: uint_nat of_nat_less_numeral_power_cancel_iff)
  obtain s1 fl1 where r: "resize f (req_Size req) s = Inr s1"
    and f1: "file_at s1 f = Some fl1"
    and e: "elems (content fl1) = take (unat (req_Size req)) (elems (content fl))
         @ replicate (unat (req_Size req) - len (content fl)) 0"
    using resize_elems [OF fl sz' ln] by blast
  have f: "f < length (files s1)" "files s1 ! f = fl1"
    using f1 by (auto simp: file_at_def split: if_splits)
  have l: "length (elems (content fl1)) = unat (req_Size req)"
    unfolding e by (auto simp: len_def)
  show ?thesis
    using v sb r f e l
    by (simp add: File_Setattr_def and_then_def file_at_def set_file_def len_def)
qed

theorem File_Setattr_size_witness:
  "(\<exists>s' fl'. File_Setattr 0 (only_size 3) (holding hello) = Inr (None, s')
      \<and> file_at s' 0 = Some fl' \<and> elems (content fl') = take 3 hello)
   \<and> (\<exists>s' fl'. File_Setattr 0 (only_size 5) (holding ab) = Inr (None, s')
      \<and> file_at s' 0 = Some fl' \<and> elems (content fl') = ab @ replicate 3 0)"
proof -
  have v: "Valid (only_size n) AND NOT file_handled AND NOT file_ignored = 0" for n
    by (simp add: only_size_def setattr_bits)
  have sb: "Valid (only_size n) AND SetattrSize \<noteq> 0" for n
    by (simp add: only_size_def setattr_bits)
  have f: "file_at (holding xs) 0 = Some ((files bar_hello ! 0)\<lparr>content := \<lparr>elems = xs, spare = []\<rparr>\<rparr>)" for xs
    by (simp add: holding_def file_at_def)
  have a: "unat (req_Size (only_size 3)) < 2 ^ 63" "unat (req_Size (only_size 5)) < 2 ^ 63"
    by (simp_all add: only_size_def)
  have b: "len (content ((files bar_hello ! 0)\<lparr>content := \<lparr>elems = hello, spare = []\<rparr>\<rparr>)) < 2 ^ 63"
     "len (content ((files bar_hello ! 0)\<lparr>content := \<lparr>elems = ab, spare = []\<rparr>\<rparr>)) < 2 ^ 63"
    by (simp_all add: len_def hello_def ab_def)
  show ?thesis
    using File_Setattr_size [OF f v sb a(1) b(1)] File_Setattr_size [OF f v sb a(2) b(2)]
    by (simp add: only_size_def len_def hello_def ab_def) blast
qed


section \<open>Inodes\<close>

lemma counts_from_append:
  "counts_from n (xs @ ys) \<longleftrightarrow> counts_from n xs \<and> counts_from (n + of_nat (length xs)) ys"
  by (induction xs arbitrary: n) (auto simp: ac_simps)

lemma grows_refl: "grows [] s s"
  by (simp add: grows_def)

lemma grows_trans:
  assumes "grows t1 s s1" and "grows t2 s1 s2"
  shows "grows (t1 @ t2) s s2"
proof -
  obtain a b c where 1: "map Inode (dirs s1) = map Inode (dirs s) @ a"
    "map Inode (files s1) = map Inode (files s) @ b"
    "map Inode (symlinks s1) = map Inode (symlinks s) @ c" "mset (a @ b @ c) = mset t1"
    using assms(1) unfolding grows_def by blast
  obtain a' b' c' where 2: "map Inode (dirs s2) = map Inode (dirs s1) @ a'"
    "map Inode (files s2) = map Inode (files s1) @ b'"
    "map Inode (symlinks s2) = map Inode (symlinks s1) @ c'" "mset (a' @ b' @ c') = mset t2"
    using assms(2) unfolding grows_def by blast
  have m: "mset ((a @ a') @ (b @ b') @ (c @ c')) = mset (t1 @ t2)"
    using 1(4) [symmetric] 2(4) [symmetric] by (simp add: ac_simps)
  have "map Inode (dirs s2) = map Inode (dirs s) @ (a @ a')"
    "map Inode (files s2) = map Inode (files s) @ (b @ b')"
    "map Inode (symlinks s2) = map Inode (symlinks s) @ (c @ c')"
    using 1 2 by simp_all
  with m have "\<exists>a b c. map Inode (dirs s2) = map Inode (dirs s) @ a
        \<and> map Inode (files s2) = map Inode (files s) @ b
        \<and> map Inode (symlinks s2) = map Inode (symlinks s) @ c
        \<and> mset (a @ b @ c) = mset (t1 @ t2)" by blast
  moreover have "lastInode s2 = lastInode s + of_nat (length (t1 @ t2))"
    using assms unfolding grows_def by (simp add: ac_simps)
  moreover have "counts_from (lastInode s) (t1 @ t2)"
    using assms unfolding grows_def by (simp add: counts_from_append)
  ultimately show ?thesis unfolding grows_def by blast
qed

lemma same_inodes_grows: "same_inodes s s' \<Longrightarrow> grows [] s s'"
  by (simp add: same_inodes_def grows_def)

lemma same_inodes_refl [simp]: "same_inodes s s"
  by (simp add: same_inodes_def)

lemma same_inodes_trans: "same_inodes s s1 \<Longrightarrow> same_inodes s1 s2 \<Longrightarrow> same_inodes s s2"
  by (simp add: same_inodes_def)

lemma map_Inode_update:
  assumes "i < length xs \<Longrightarrow> Inode v = Inode (xs ! i)"
  shows "map Inode (xs[i := v]) = map Inode xs"
proof (cases "i < length xs")
  case True
  then show ?thesis using assms by (simp add: map_update list_update_same_conv)
next
  case False
  then have "xs[i := v] = xs" by (simp add: list_update_beyond)
  then show ?thesis by simp
qed

lemma same_inodes_set_dir:
  assumes "dir_at s d = Some dr" and "Inode v = Inode dr"
  shows "same_inodes s (set_dir d v s)"
  using assms by (auto simp: same_inodes_def set_dir_def dir_at_def map_Inode_update split: if_splits)

lemma same_inodes_set_file:
  assumes "file_at s f = Some fl" and "Inode v = Inode fl"
  shows "same_inodes s (set_file f v s)"
  using assms by (auto simp: same_inodes_def set_file_def file_at_def map_Inode_update split: if_splits)

lemma same_inodes_insert_child:
  assumes "insert_child d name child s = Inr s'"
  shows "same_inodes s s'"
proof (cases "dir_at s d")
  case None
  then show ?thesis using assms by (simp add: insert_child_def)
next
  case (Some dr)
  then have "d < length (dirs s)" "dirs s ! d = dr" by (auto simp: dir_at_def split: if_splits)
  then show ?thesis
    using assms unfolding insert_child_Some [OF Some]
    by (auto simp: same_inodes_def map_Inode_update)
qed

lemma same_inodes_delete_child:
  assumes "delete_child d name s = Inr s'"
  shows "same_inodes s s'"
proof (cases "dir_at s d")
  case None
  then show ?thesis using assms by (simp add: delete_child_def)
next
  case (Some dr)
  then have "d < length (dirs s)" "dirs s ! d = dr" by (auto simp: dir_at_def split: if_splits)
  then show ?thesis
    using assms unfolding delete_child_Some [OF Some]
    by (auto simp: same_inodes_def map_Inode_update)
qed

lemma Dir_Lookup_same: "Dir_Lookup d name s = Inr (r, s') \<Longrightarrow> same_inodes s s'"
  by (auto simp: Dir_Lookup_def split: option.splits)

lemma Dir_Link_same: "Dir_Link d name old s = Inr (r, s') \<Longrightarrow> same_inodes s s'"
  by (auto simp: Dir_Link_def split: Node.splits sum.splits dest: same_inodes_insert_child)

lemma Dir_Remove_same: "Dir_Remove d name s = Inr (r, s') \<Longrightarrow> same_inodes s s'"
  by (auto simp: Dir_Remove_def split: option.splits Node.splits sum.splits bool.splits if_splits
      dest: same_inodes_delete_child)

lemma Dir_Rename_same: "Dir_Rename d old new nd s = Inr (r, s') \<Longrightarrow> same_inodes s s'"
  by (auto simp: Dir_Rename_def Let_def split: option.splits Node.splits sum.splits
      dest!: same_inodes_delete_child same_inodes_insert_child intro: same_inodes_trans)

lemma Dir_Setattr_same: "Dir_Setattr d req s = Inr (r, s') \<Longrightarrow> same_inodes s s'"
  by (auto simp: Dir_Setattr_def and_then_def split: if_splits option.splits sum.splits
      intro!: same_inodes_set_dir intro: same_inodes_trans [OF same_inodes_set_dir same_inodes_set_dir])


lemma File_Read_same: "File_Read f off sz s = Inr (r, s') \<Longrightarrow> same_inodes s s'"
  by (auto simp: File_Read_def split: option.splits)

lemma same_inodes_ticks: "same_inodes s (s\<lparr>ticks := t\<rparr>)"
  by (simp add: same_inodes_def)

lemma File_Write_same:
  assumes "File_Write f off data s = Inr (r, s')"
  shows "same_inodes s s'"
proof (cases "file_at s f")
  case None
  then show ?thesis using assms by (simp add: File_Write_def)
next
  case (Some fl)
  then have f: "f < length (files s)" "files s ! f = fl"
    by (auto simp: file_at_def split: if_splits)
  obtain c where "s' = set_file f ((fl\<lparr>content := c\<rparr>)\<lparr>Mtime := clock s (ticks s)\<rparr>)
       ((set_file f (fl\<lparr>content := c\<rparr>) s)\<lparr>ticks := Suc (ticks s)\<rparr>)"
    using assms f
    by (auto simp: File_Write_def Some Let_def time_Now_def set_file_def file_at_def
        split: option.splits if_splits prod.splits)
  then show ?thesis
    using f by (simp add: same_inodes_def set_file_def map_Inode_update)
qed

lemma resize_same: "resize f sz s = Inr s' \<Longrightarrow> same_inodes s s'"
  by (auto simp: resize_def Let_def split: option.splits if_splits
      intro: same_inodes_set_file)

lemma File_Setattr_same:
  assumes "File_Setattr f req s = Inr (r, s')"
  shows "same_inodes s s'"
proof -
  obtain s1 s2 where 1: "s1 = s \<or> resize f (req_Size req) s = Inr s1"
    and 2: "s2 = s1 \<or> (\<exists>fl. file_at s1 f = Some fl \<and> s2 = set_file f (fl\<lparr>Mode := req_Mode req\<rparr>) s1)"
    and 3: "s' = s2 \<or> (\<exists>fl. file_at s2 f = Some fl \<and> s' = set_file f (fl\<lparr>Mtime := req_Mtime req\<rparr>) s2)"
    using assms
    by (auto simp: File_Setattr_def and_then_def split: if_splits option.splits sum.splits)
  have "same_inodes s s1" using 1 by (auto dest: resize_same)
  moreover have "same_inodes s1 s2" using 2 by (auto intro: same_inodes_set_file)
  moreover have "same_inodes s2 s'" using 3 by (auto intro: same_inodes_set_file)
  ultimately show ?thesis by (blast intro: same_inodes_trans)
qed

lemma inode_of_new_dir:
  assumes "dir_at s' c = Some x" shows "inode_of s' (DirPtr c) = [Inode x]"
  using assms by (simp add: inode_of_def)

lemma Dir_Mkdir_grows:
  assumes "created (Dir_Mkdir d name mode s) = Inr (tr, s')"
  shows "grows tr s s'"
proof (cases "dir_at s d")
  case None
  then show ?thesis using assms by (simp add: Dir_Mkdir_def created_def)
next
  case (Some dr)
  show ?thesis
  proof (cases "children dr name")
    case (Some n)
    then show ?thesis
      using assms \<open>dir_at s d = Some dr\<close>
      by (auto simp: Dir_Mkdir_def created_def intro: grows_refl)
  next
    case None
    let ?s1 = "snd (newDir mode s)"
    have c: "created (case insert_child d name (DirPtr (length (dirs s))) ?s1 of
               Inl a \<Rightarrow> Inl a
             | Inr s2 \<Rightarrow> Inr ((DirPtr (length (dirs s)), None), s2)) = Inr (tr, s')"
      using assms None \<open>dir_at s d = Some dr\<close> by (simp add: Dir_Mkdir_def newDir_eq)
    have "insert_child d name (DirPtr (length (dirs s))) ?s1 = Inr s'
        \<and> tr = inode_of s' (DirPtr (length (dirs s)))"
    proof (cases "insert_child d name (DirPtr (length (dirs s))) ?s1")
      case (Inl a)
      then show ?thesis using c by (simp add: created_def)
    next
      case (Inr s2)
      then show ?thesis using c by (auto simp: created_def)
    qed
    then have i: "insert_child d name (DirPtr (length (dirs s))) ?s1 = Inr s'"
      and r: "tr = inode_of s' (DirPtr (length (dirs s)))" by simp_all
    have sm: "same_inodes ?s1 s'" using i by (rule same_inodes_insert_child)
    have l: "length (dirs s') = Suc (length (dirs s))"
      using sm by (auto simp: same_inodes_def newDir_eq dest: arg_cong [where f = length])
    have "map Inode (dirs s') ! length (dirs s) = lastInode s + 1"
      using sm by (simp add: same_inodes_def newDir_eq nth_append)
    then have "Inode (dirs s' ! length (dirs s)) = lastInode s + 1"
      using l by simp
    then have tr: "tr = [lastInode s + 1]"
      using r l by (simp add: inode_of_def dir_at_def)
    show ?thesis
      using sm unfolding tr
      by (simp add: grows_def same_inodes_def newDir_eq)
  qed
qed

lemma Dir_Create_grows:
  assumes "created (Dir_Create d name mode s) = Inr (tr, s')"
  shows "grows tr s s'"
proof -
  let ?s1 = "snd (newFile mode s)"
  have c: "created (case insert_child d name (FilePtr (length (files s))) ?s1 of
             Inl a \<Rightarrow> Inl a
           | Inr s2 \<Rightarrow> Inr ((FilePtr (length (files s)), None), s2)) = Inr (tr, s')"
    using assms by (simp add: Dir_Create_def newFile_eq)
  have "insert_child d name (FilePtr (length (files s))) ?s1 = Inr s'
      \<and> tr = inode_of s' (FilePtr (length (files s)))"
  proof (cases "insert_child d name (FilePtr (length (files s))) ?s1")
    case (Inl a)
    then show ?thesis using c by (simp add: created_def)
  next
    case (Inr s2)
    then show ?thesis using c by (auto simp: created_def)
  qed
  then have i: "insert_child d name (FilePtr (length (files s))) ?s1 = Inr s'"
    and r: "tr = inode_of s' (FilePtr (length (files s)))" by simp_all
  have sm: "same_inodes ?s1 s'" using i by (rule same_inodes_insert_child)
  have l: "length (files s') = Suc (length (files s))"
    using sm by (auto simp: same_inodes_def newFile_eq dest: arg_cong [where f = length])
  have "map Inode (files s') ! length (files s) = lastInode s + 1"
    using sm by (simp add: same_inodes_def newFile_eq nth_append)
  then have "Inode (files s' ! length (files s)) = lastInode s + 1"
    using l by simp
  then have tr: "tr = [lastInode s + 1]"
    using r l by (simp add: inode_of_def file_at_def)
  show ?thesis
    using sm unfolding tr
    by (simp add: grows_def same_inodes_def newFile_eq)
qed

lemma Dir_Symlink_grows:
  assumes "created (Dir_Symlink d name tgt s) = Inr (tr, s')"
  shows "grows tr s s'"
proof -
  let ?s1 = "snd (newSymlink tgt s)"
  have c: "created (case insert_child d name (SymlinkPtr (length (symlinks s))) ?s1 of
             Inl a \<Rightarrow> Inl a
           | Inr s2 \<Rightarrow> Inr ((SymlinkPtr (length (symlinks s)), None), s2)) = Inr (tr, s')"
    using assms by (simp add: Dir_Symlink_def newSymlink_eq)
  have "insert_child d name (SymlinkPtr (length (symlinks s))) ?s1 = Inr s'
      \<and> tr = inode_of s' (SymlinkPtr (length (symlinks s)))"
  proof (cases "insert_child d name (SymlinkPtr (length (symlinks s))) ?s1")
    case (Inl a)
    then show ?thesis using c by (simp add: created_def)
  next
    case (Inr s2)
    then show ?thesis using c by (auto simp: created_def)
  qed
  then have i: "insert_child d name (SymlinkPtr (length (symlinks s))) ?s1 = Inr s'"
    and r: "tr = inode_of s' (SymlinkPtr (length (symlinks s)))" by simp_all
  have sm: "same_inodes ?s1 s'" using i by (rule same_inodes_insert_child)
  have l: "length (symlinks s') = Suc (length (symlinks s))"
    using sm by (auto simp: same_inodes_def newSymlink_eq dest: arg_cong [where f = length])
  have "map Inode (symlinks s') ! length (symlinks s) = lastInode s + 1"
    using sm by (simp add: same_inodes_def newSymlink_eq nth_append)
  then have "Inode (symlinks s' ! length (symlinks s)) = lastInode s + 1"
    using l by simp
  then have tr: "tr = [lastInode s + 1]"
    using r l by (simp add: inode_of_def symlink_at_def)
  show ?thesis
    using sm unfolding tr
    by (simp add: grows_def same_inodes_def newSymlink_eq)
qed

lemma nothing_created_grows:
  assumes "nothing_created r = Inr (tr, s')" and "\<And>x. r = Inr (x, s') \<Longrightarrow> same_inodes s s'"
  shows "grows tr s s'"
  using assms by (auto simp: nothing_created_def split: sum.splits intro: same_inodes_grows)

lemma perform_grows:
  assumes "perform c s = Inr (tr, s')"
  shows "grows tr s s'"
proof (cases c)
  case (DirLookup d n)
  then show ?thesis using assms by (auto intro: nothing_created_grows Dir_Lookup_same)
next
  case (DirMkdir d n m)
  then show ?thesis using assms by (auto intro: Dir_Mkdir_grows)
next
  case (DirCreate d n m)
  then show ?thesis using assms by (auto intro: Dir_Create_grows)
next
  case (DirLink d n old)
  then show ?thesis using assms by (auto intro: nothing_created_grows Dir_Link_same)
next
  case (DirSymlink d n t)
  then show ?thesis using assms by (auto intro: Dir_Symlink_grows)
next
  case (DirRemove d n)
  then show ?thesis using assms by (auto intro: nothing_created_grows Dir_Remove_same)
next
  case (DirRename d n1 n2 nd)
  then show ?thesis using assms by (auto intro: nothing_created_grows Dir_Rename_same)
next
  case (DirSetattr d r)
  then show ?thesis using assms by (auto intro: nothing_created_grows Dir_Setattr_same)
next
  case (FileRead f off sz)
  then show ?thesis using assms by (auto intro: nothing_created_grows File_Read_same)
next
  case (FileWrite f off data)
  then show ?thesis using assms by (auto intro: nothing_created_grows File_Write_same)
next
  case (FileSetattr f r)
  then show ?thesis using assms by (auto intro: nothing_created_grows File_Setattr_same)
qed

lemma run_grows:
  assumes "run cs s = Inr (tr, s')"
  shows "grows tr s s'"
  using assms
proof (induction cs arbitrary: s tr)
  case Nil
  then show ?case by (simp add: grows_refl)
next
  case (Cons c cs)
  then obtain t1 s1 t2 where p: "perform c s = Inr (t1, s1)"
    and r: "run cs s1 = Inr (t2, s')" and t: "tr = t1 @ t2"
    by (auto split: sum.splits)
  show ?case
    unfolding t using perform_grows [OF p] Cons.IH [OF r] by (rule grows_trans)
qed


lemma counts_from_unat:
  assumes "counts_from n tr" and "unat n + length tr < 2 ^ 64"
  shows "map unat tr = [Suc (unat n) ..< Suc (unat n) + length tr]"
  using assms
proof (induction tr arbitrary: n)
  case Nil
  then show ?case by simp
next
  case (Cons x xs)
  have "unat n + unat (1 :: 64 word) < 2 ^ LENGTH(64)" using Cons.prems(2) by simp
  then have u: "unat (n + 1) = Suc (unat n)"
    by (simp add: unat_add_lem [THEN iffD1])
  have "map unat xs = [Suc (unat (n + 1)) ..< Suc (unat (n + 1)) + length xs]"
    using Cons.prems by (intro Cons.IH) (simp_all add: u)
  then show ?case
    using Cons.prems(1) by (simp del: upt_Suc add: u upt_conv_Cons)
qed

lemma all_inodes_init: "all_inodes (init clk slk) = [1]" "lastInode (init clk slk) = 1"
  by (simp_all add: all_inodes_def init_def boot_def newDir_eq)

lemma grows_all_inodes:
  assumes "grows tr s s'"
  shows "mset (all_inodes s') = mset (all_inodes s) + mset tr"
proof -
  obtain a b c where "map Inode (dirs s') = map Inode (dirs s) @ a"
    "map Inode (files s') = map Inode (files s) @ b"
    "map Inode (symlinks s') = map Inode (symlinks s) @ c" "mset (a @ b @ c) = mset tr"
    using assms unfolding grows_def by blast
  then show ?thesis
    using \<open>mset (a @ b @ c) = mset tr\<close> [symmetric] by (simp add: all_inodes_def ac_simps)
qed

lemma grows_take:
  assumes "grows tr s s'"
  shows "take (length (dirs s)) (map Inode (dirs s')) = map Inode (dirs s)"
    and "take (length (files s)) (map Inode (files s')) = map Inode (files s)"
    and "take (length (symlinks s)) (map Inode (symlinks s')) = map Inode (symlinks s)"
proof -
  obtain a b c where e: "map Inode (dirs s') = map Inode (dirs s) @ a"
    "map Inode (files s') = map Inode (files s) @ b"
    "map Inode (symlinks s') = map Inode (symlinks s) @ c"
    using assms unfolding grows_def by blast
  show "take (length (dirs s)) (map Inode (dirs s')) = map Inode (dirs s)"
    unfolding e by simp
  show "take (length (files s)) (map Inode (files s')) = map Inode (files s)"
    unfolding e by simp
  show "take (length (symlinks s)) (map Inode (symlinks s')) = map Inode (symlinks s)"
    unfolding e by simp
qed

text \<open>
  C9. In every run, started from the state in which the root was created, whose
  creating calls number fewer than \<open>2^64 - 1\<close> (the counter is a uint64): the root has
  inode 1 and the k-th node created has inode k + 1, so the inodes assigned are
  strictly increasing in creation order and pairwise distinct; they come from the one
  counter \<open>lastInode\<close>, which ends at the number of nodes created; the nodes in the heap
  carry exactly these inodes, each once; and between any two points of the run every
  node that existed at the first still has its inode at the second. The calls of a
  run are Lookup, Mkdir, Create, Link, Symlink, Remove, Rename, Read, Write and both
  Setattr; the methods left out (Attr, ReadDirAll, Readlink, Fsync) only read.
\<close>

theorem inodes_unique_increasing:
  assumes r1: "run cs1 (init clk slk) = Inr (t1, s1)"
    and r2: "run cs2 s1 = Inr (t2, s2)"
    and bound: "length (t1 @ t2) < 2 ^ 64 - 1"
  shows "all_inodes (init clk slk) = [1]
     \<and> map unat (1 # t1 @ t2) = [1 ..< 2 + length (t1 @ t2)]
     \<and> sorted_wrt (<) (1 # t1 @ t2)
     \<and> distinct (1 # t1 @ t2)
     \<and> mset (all_inodes s2) = mset (1 # t1 @ t2)
     \<and> distinct (all_inodes s2)
     \<and> lastInode s2 = of_nat (1 + length (t1 @ t2))
     \<and> take (length (dirs s1)) (map Inode (dirs s2)) = map Inode (dirs s1)
     \<and> take (length (files s1)) (map Inode (files s2)) = map Inode (files s1)
     \<and> take (length (symlinks s1)) (map Inode (symlinks s2)) = map Inode (symlinks s1)"
proof -
  let ?tr = "t1 @ t2"
  have g1: "grows t1 (init clk slk) s1" using r1 by (rule run_grows)
  have g2: "grows t2 s1 s2" using r2 by (rule run_grows)
  have g: "grows ?tr (init clk slk) s2" using g1 g2 by (rule grows_trans)
  have cf: "counts_from 1 ?tr" and li: "lastInode s2 = 1 + of_nat (length ?tr)"
    using g by (simp_all add: grows_def all_inodes_init)
  have "unat (1 :: 64 word) + length ?tr < 2 ^ 64" using bound by simp
  from counts_from_unat [OF cf this]
  have m: "map unat (1 # ?tr) = [1 ..< 2 + length ?tr]"
    by (simp del: upt_Suc add: upt_conv_Cons)
  have "sorted_wrt (<) (map unat (1 # ?tr))" unfolding m by (rule sorted_wrt_upt)
  then have "sorted_wrt (\<lambda>x y. unat x < unat y) (1 # ?tr)"
    by (simp only: sorted_wrt_map)
  then have so: "sorted_wrt (<) (1 # ?tr)"
    by (simp only: word_less_nat_alt [symmetric])
  have "distinct (map unat (1 # ?tr))" unfolding m by (rule distinct_upt)
  then have di: "distinct (1 # ?tr)" by (simp only: distinct_map)
  have ms: "mset (all_inodes s2) = mset (1 # ?tr)"
    using grows_all_inodes [OF g] by (simp add: all_inodes_init)
  have da: "distinct (all_inodes s2)"
    using di ms by (metis mset_eq_imp_distinct_iff)
  show ?thesis
    using m so di ms da li grows_take [OF g2] all_inodes_init(1) [of clk slk]
    by (simp add: ac_simps)
qed

theorem inodes_unique_increasing_witness:
  "run [DirMkdir root ''bar'' 493, DirCreate 1 ''hello'' 420] (init int no_slack)
     = Inr ([2, 3], bar_hello)
   \<and> (\<exists>s2. run [DirSymlink root ''link'' ''bar/hello'', DirRemove 1 ''hello''] bar_hello
              = Inr ([4], s2)
        \<and> sorted_wrt (<) [1, 2, 3, 4 :: 64 word]
        \<and> mset (all_inodes s2) = mset [1, 2, 3, 4]
        \<and> distinct (all_inodes s2)
        \<and> lastInode s2 = 4)"
proof -
  have r1: "run [DirMkdir root ''bar'' 493, DirCreate 1 ''hello'' 420] (init int no_slack)
     = Inr ([2, 3], bar_hello)"
    using bar_hello_reached by (simp add: fresh_def)
  obtain s2 where r2: "run [DirSymlink root ''link'' ''bar/hello'', DirRemove 1 ''hello''] bar_hello
              = Inr ([4], s2)"
    by (simp add: bar_hello_def root_def Dir_Symlink_def Dir_Remove_def newSymlink_eq
        insert_child_def delete_child_def heap_defs created_def nothing_created_def inode_of_def)
  have b: "length ([2, 3] @ [4 :: 64 word]) < 2 ^ 64 - 1" by simp
  show ?thesis
    using inodes_unique_increasing [OF r1 r2 b] r1 r2 by auto
qed


end
